theory Spec2Isabelle
  imports Main
begin

section \<open>The scan-and-solve loop of src/index.js\<close>

text \<open>
  The module keeps its session in module-level variables and drives its collaborators
  (webcam, recognition, validator, solver, display, telemetry transport) from two click
  handlers, \<open>onVideoClick\<close> and \<open>onCancel\<close>. The model threads one record through
  every function; a collaborator that computes from the frame or the puzzle returns
  either a raised error or a value. Calls that only change what is displayed, logged or
  timed (display mode, cancel button, error panel, \<open>log\<close>, \<open>performance\<close>, the
  frame-rate counter) are plain updates of the record.

  Readings of the host clock (\<open>performance.now\<close>, \<open>Date\<close>, the \<open>startTime\<close> of a mark)
  are floating-point values that no decision of the module depends on: a timing mark is
  represented by its name, and \<open>startTime\<close>, \<open>duration\<close>, \<open>timestamp\<close> and \<open>version\<close>
  are left out of the telemetry record.
\<close>

subsection \<open>Data\<close>

type_synonym imageData = "nat list"

text \<open>
  \<open>scanPuzzle\<close> returns the recognised cells only, so that the length of its result is
  the number of clues (the module compares it with 17, the least number of clues of a
  uniquely solvable puzzle). One recognised cell is its position 0..80 in the grid and the
  digit read there.
\<close>

type_synonym digitPrediction = "nat \<times> nat"

type_synonym grid = "nat list"

text \<open>
  A raised error: its message and the flag the module reads to tell an expected scan
  exception from any other error.
\<close>

record jsError =
  message :: string
  isScanException :: bool

datatype displayMode = DISPLAY_MODE_INSTRUCTIONS | DISPLAY_MODE_VIDEO | DISPLAY_MODE_SOLUTION

datatype logEntry = LogInfo string | LogError string

text \<open>The object \<open>processImage\<close> returns on success.\<close>

record scanResult =
  imageDataURL :: string
  solution :: grid

text \<open>The body of the request to \<open>/api/scanMetrics\<close>.\<close>

record scanMetrics =
  m_outcome :: string
  m_frameCount :: nat
  m_markss :: "string list list"
  m_imageDataURL :: "string option"
  m_solution :: "grid option"

text \<open>Invocations of the collaborators, in the order the module makes them.\<close>

datatype call =
    CallCaptureWebcam
  | CallScanPuzzle imageData
  | CallSatisfiesAllConstraints "digitPrediction list"
  | CallSolve grid nat
  | CallDrawPuzzle grid grid

record state =
  webcamStarted :: bool
  displayMode :: displayMode
  cancelButton :: bool
  errorPanel :: "string option"
  stats :: bool
  frameCount :: nat
  markss :: "string list list"
  marks :: "string list"
  logged :: "logEntry list"
  calls :: "call list"
  posted :: "scanMetrics list"

text \<open>
  The collaborators imported by the module and the \<open>fps\<close> query parameter. Their
  sources are not part of the module; each is a parameter of the model.
\<close>

record collab =
  fpsOn :: bool
  startWebcam :: "jsError + unit"
  scanPuzzle :: "imageData \<Rightarrow> jsError + digitPrediction list"
  satisfiesAllConstraints :: "digitPrediction list \<Rightarrow> jsError + bool"
  digitPredictionsToPuzzle :: "digitPrediction list \<Rightarrow> jsError + grid"
  getInitialValues :: "grid \<Rightarrow> jsError + grid"
  solve :: "grid \<Rightarrow> nat \<Rightarrow> jsError + grid list"
  drawPuzzle :: "grid \<Rightarrow> grid \<Rightarrow> jsError + unit"
  imageDataToDataURL :: "imageData \<Rightarrow> jsError + string"
  axiosPost :: "scanMetrics \<Rightarrow> jsError + unit"

text \<open>
  Each \<open>await\<close> inside the loop suspends \<open>onVideoClick\<close>; while it is suspended the
  host can run the click handler of the cancel button.
\<close>

datatype awaitPoint = AwaitCaptureWebcam | AwaitProcessImage | AwaitNextFrame

text \<open>
  What the environment does during one pass of the loop: what \<open>captureWebcam\<close> yields
  (an error, no frame, or a frame) and at which \<open>await\<close>, if any, the user clicks cancel.
\<close>

record tick =
  capture :: "jsError + imageData option"
  cancel :: "awaitPoint option"

text \<open>
  The outcome of running a handler over the passes supplied: it returned a value in a
  state, or the passes ran out while its loop was still running.
\<close>

datatype 'a run = Done 'a state | Pending state

subsection \<open>Display, log and timing primitives\<close>

definition logInfo :: "string \<Rightarrow> state \<Rightarrow> state" where
  "logInfo msg s = s\<lparr>logged := logged s @ [LogInfo msg]\<rparr>"

definition logError :: "string \<Rightarrow> state \<Rightarrow> state" where
  "logError msg s = s\<lparr>logged := logged s @ [LogError msg]\<rparr>"

text \<open>
  The error panel is modelled by the message it shows; \<open>onVideoClick\<close> passes it the
  error object and \<open>processImage\<close> the message of the error.
\<close>

definition showErrorPanel :: "string \<Rightarrow> state \<Rightarrow> state" where
  "showErrorPanel msg s = s\<lparr>errorPanel := Some msg\<rparr>"

definition hideErrorPanel :: "state \<Rightarrow> state" where
  "hideErrorPanel s = s\<lparr>errorPanel := None\<rparr>"

definition setDisplayMode :: "displayMode \<Rightarrow> state \<Rightarrow> state" where
  "setDisplayMode m s = s\<lparr>displayMode := m\<rparr>"

definition showCancelButton :: "state \<Rightarrow> state" where
  "showCancelButton s = s\<lparr>cancelButton := True\<rparr>"

definition hideCancelButton :: "state \<Rightarrow> state" where
  "hideCancelButton s = s\<lparr>cancelButton := False\<rparr>"

definition clearMarks :: "state \<Rightarrow> state" where
  "clearMarks s = s\<lparr>marks := []\<rparr>"

definition mark :: "string \<Rightarrow> state \<Rightarrow> state" where
  "mark name s = s\<lparr>marks := marks s @ [name]\<rparr>"

definition invoke :: "call \<Rightarrow> state \<Rightarrow> state" where
  "invoke k s = s\<lparr>calls := calls s @ [k]\<rparr>"

definition showStats :: "collab \<Rightarrow> state \<Rightarrow> state" where
  "showStats c s = (if fpsOn c then s\<lparr>stats := True\<rparr> else s)"

definition hideStats :: "collab \<Rightarrow> state \<Rightarrow> state" where
  "hideStats c s = (if fpsOn c \<and> stats s then s\<lparr>stats := False\<rparr> else s)"

text \<open>
  Modelled from the spec: the Frame Source collaborator (\<open>./webcam\<close>) is live between a
  successful \<open>start\<close> and the next \<open>stop\<close>; \<open>isWebcamStarted\<close> reads the field.
\<close>

definition stopWebcam :: "state \<Rightarrow> state" where
  "stopWebcam s = s\<lparr>webcamStarted := False\<rparr>"

subsection \<open>Session metrics\<close>

definition resetScanMetrics :: "state \<Rightarrow> state" where
  "resetScanMetrics s = s\<lparr>frameCount := 0, markss := []\<rparr>"

text \<open>\<open>xs.slice(-n)\<close>: the last \<open>n\<close> elements, the whole array when it is shorter.\<close>

definition sliceLast :: "nat \<Rightarrow> 'a list \<Rightarrow> 'a list" where
  "sliceLast n xs = drop (length xs - n) xs"

text \<open>
  \<open>saveScanMetrics\<close> hands the request to \<open>axios.post\<close> and catches a failure of the
  transport, which it only logs. \<open>posted\<close> lists the requests handed over, in order.
\<close>

definition saveScanMetrics ::
  "collab \<Rightarrow> string \<Rightarrow> string option \<Rightarrow> grid option \<Rightarrow> state \<Rightarrow> state" where
  "saveScanMetrics c outcome url sol s =
     (let data = \<lparr>m_outcome = outcome, m_frameCount = frameCount s,
                  m_markss = sliceLast 100 (markss s),
                  m_imageDataURL = url, m_solution = sol\<rparr>;
          s1 = s\<lparr>posted := posted s @ [data]\<rparr>
      in case axiosPost c data of
           Inl e \<Rightarrow> logError (''[saveScanMetrics] '' @ message e) s1
         | Inr _ \<Rightarrow> s1)"

text \<open>
  \<open>logPerformanceMetrics\<close> reads the marks set since the last \<open>clearMarks\<close>, returns when
  there are none, and otherwise logs each mark, counts the frame and pushes the marks onto
  \<open>markss\<close>.
\<close>

definition logPerformanceMetrics :: "state \<Rightarrow> state" where
  "logPerformanceMetrics s =
     (if length (marks s) = 0 then s
      else s\<lparr>logged := logged s @ map LogInfo (marks s),
             frameCount := frameCount s + 1,
             markss := markss s @ [marks s]\<rparr>)"

subsection \<open>Cancellation\<close>

text \<open>
  \<open>onCancel\<close>. Its \<open>catch\<close> block is never entered in the model: the display calls do
  not raise and \<open>saveScanMetrics\<close> catches the failure of its own request.
\<close>

definition onCancel :: "collab \<Rightarrow> state \<Rightarrow> state" where
  "onCancel c s =
     saveScanMetrics c ''cancelled'' None None
       (hideStats c (stopWebcam (hideCancelButton (setDisplayMode DISPLAY_MODE_INSTRUCTIONS s))))"

text \<open>The handler is attached to the cancel button only while the button is shown.\<close>

definition clickCancel :: "collab \<Rightarrow> state \<Rightarrow> state" where
  "clickCancel c s = (if cancelButton s then onCancel c s else s)"

definition cancelAt :: "collab \<Rightarrow> awaitPoint \<Rightarrow> tick \<Rightarrow> state \<Rightarrow> state" where
  "cancelAt c p tk s = (if cancel tk = Some p then clickCancel c s else s)"

subsection \<open>Processing one frame\<close>

text \<open>
  The \<open>try\<close> block of \<open>processImage\<close>: \<open>Inl e\<close> when a step raises \<open>e\<close>, otherwise the
  value returned (\<open>None\<close> for the bare \<open>return\<close>s). The state transformer \<open>k\<close> is
  what the host runs while \<open>scanPuzzle\<close> is awaited. \<open>raisesOr r s f\<close> ends the block in
  state \<open>s\<close> with the error the call raised, or goes on with the value it returned.
\<close>

definition raisesOr ::
  "jsError + 'a \<Rightarrow> state \<Rightarrow> ('a \<Rightarrow> (jsError + 'b) \<times> state) \<Rightarrow> (jsError + 'b) \<times> state" where
  "raisesOr r s f = (case r of Inl e \<Rightarrow> (Inl e, s) | Inr v \<Rightarrow> f v)"

definition processImage_try ::
  "collab \<Rightarrow> (state \<Rightarrow> state) \<Rightarrow> imageData \<Rightarrow> state \<Rightarrow> (jsError + scanResult option) \<times> state" where
  "processImage_try c k imageData s0 =
     (let s1 = k (invoke (CallScanPuzzle imageData) s0) in
      raisesOr (scanPuzzle c imageData) s1 (\<lambda>digitPredictions.
      let s2 = mark ''scanPuzzle'' s1 in
      if length digitPredictions < 17 then (Inr None, s2) else
      let s3 = invoke (CallSatisfiesAllConstraints digitPredictions) s2 in
      raisesOr (satisfiesAllConstraints c digitPredictions) s3 (\<lambda>ok.
      if \<not> ok then (Inr None, s3) else
      let s4 = mark ''satisfiesAllConstraints'' s3 in
      raisesOr (digitPredictionsToPuzzle c digitPredictions) s4 (\<lambda>puzzle.
      raisesOr (getInitialValues c puzzle) s4 (\<lambda>initialValues.
      let s5 = invoke (CallSolve puzzle 1) s4 in
      raisesOr (solve c puzzle 1) s5 (\<lambda>solutions.
      let s6 = mark ''solve'' s5 in
      if length solutions \<noteq> 1 then (Inr None, s6) else
      let sol = solutions ! 0;
          s7 = invoke (CallDrawPuzzle initialValues sol)
                 (setDisplayMode DISPLAY_MODE_SOLUTION s6) in
      raisesOr (drawPuzzle c initialValues sol) s7 (\<lambda>_.
      let s8 = mark ''drawPuzzle'' s7 in
      raisesOr (imageDataToDataURL c imageData) s8 (\<lambda>url.
      (Inr (Some \<lparr>imageDataURL = url, solution = sol\<rparr>), s8)))))))))"

definition processImage ::
  "collab \<Rightarrow> (state \<Rightarrow> state) \<Rightarrow> imageData \<Rightarrow> state \<Rightarrow> scanResult option \<times> state" where
  "processImage c k imageData s =
     (case processImage_try c k imageData s of
        (Inr r, s') \<Rightarrow> (r, s')
      | (Inl e, s') \<Rightarrow>
          (let s1 = logError (''[processImage] '' @ message e) s'
           in (None, if \<not> isScanException e then showErrorPanel (message e) s1 else s1)))"

subsection \<open>The loop\<close>

text \<open>
  One pass through the body of the \<open>while\<close> loop, up to and including its \<open>finally\<close>
  block: whether the pass leaves the loop by \<open>break\<close>, the value of \<open>result\<close>, and the
  state. \<open>result\<close> starts as \<open>false\<close> and is otherwise what \<open>processImage\<close> returned, an
  object or \<open>undefined\<close>: \<open>None\<close> stands for both falsy values. The \<open>finally\<close> block
  runs on every way out of the \<open>try\<close> block, \<open>break\<close> included.
\<close>

definition loopBody ::
  "collab \<Rightarrow> tick \<Rightarrow> scanResult option \<Rightarrow> state \<Rightarrow> bool \<times> scanResult option \<times> state" where
  "loopBody c tk result s =
     (let s1 = cancelAt c AwaitCaptureWebcam tk (invoke CallCaptureWebcam (clearMarks s)) in
      case capture tk of
        Inl e \<Rightarrow>
          (False, result,
           logPerformanceMetrics
             (showErrorPanel (message e) (logError (''[onVideoClick] '' @ message e) s1)))
      | Inr None \<Rightarrow> (True, result, logPerformanceMetrics (mark ''captureWebcam'' s1))
      | Inr (Some imageData) \<Rightarrow>
          (case processImage c (cancelAt c AwaitProcessImage tk) imageData
                  (mark ''captureWebcam'' s1) of
             (r, s2) \<Rightarrow> (r \<noteq> None, r, logPerformanceMetrics s2)))"

text \<open>
  The \<open>while (isWebcamStarted())\<close> loop over the passes the environment supplies. When
  the passes run out while the webcam is still started the loop is still running:
  \<open>Pending\<close>.
\<close>

fun scanLoop :: "collab \<Rightarrow> tick list \<Rightarrow> scanResult option \<Rightarrow> state \<Rightarrow> scanResult option run" where
  "scanLoop c [] result s = (if webcamStarted s then Pending s else Done result s)"
| "scanLoop c (tk # tks) result s =
     (if \<not> webcamStarted s then Done result s
      else case loopBody c tk result s of
        (brk, result', s') \<Rightarrow>
          if brk then Done result' s'
          else scanLoop c tks result'
                 (cancelAt c AwaitNextFrame tk
                    (logInfo ''[onVideoClick] waiting for next frame...'' s')))"

text \<open>The log line that reports \<open>tf.memory()\<close>; its numbers are not modelled.\<close>

definition tfMemoryLine :: string where
  "tfMemoryLine = ''[onVideoClick] tf memory''"

text \<open>
  The statements of \<open>onVideoClick\<close> after the loop: the clean-up of a completed scan
  under \<open>result && isWebcamStarted()\<close>, then the memory log line.
\<close>

definition afterLoop :: "collab \<Rightarrow> scanResult option \<Rightarrow> state \<Rightarrow> state" where
  "afterLoop c result s =
     logInfo tfMemoryLine
       (case result of
          Some r \<Rightarrow>
            if webcamStarted s
            then saveScanMetrics c ''completed'' (Some (imageDataURL r)) (Some (solution r))
                   (hideStats c (stopWebcam (hideCancelButton s)))
            else s
        | None \<Rightarrow> s)"

text \<open>
  The statements of \<open>onVideoClick\<close> between the start of the webcam and the loop. A
  \<open>startWebcam\<close> that does not raise leaves the webcam started.
\<close>

definition enterLoop :: "collab \<Rightarrow> state \<Rightarrow> state" where
  "enterLoop c s =
     showStats c (showCancelButton
       (setDisplayMode DISPLAY_MODE_VIDEO (s\<lparr>webcamStarted := True\<rparr>)))"

text \<open>
  \<open>onVideoClick\<close> over the passes the environment supplies, for one handler running on
  its own: the only other code that runs while it is suspended is \<open>onCancel\<close>, at the
  \<open>await\<close> each pass names. Handlers that interleave (a second click on the video
  button while the first handler is suspended) are the subject of the host model below.
\<close>

definition onVideoClick :: "collab \<Rightarrow> tick list \<Rightarrow> state \<Rightarrow> unit run" where
  "onVideoClick c tks s =
     (if webcamStarted s
      then Done () (logInfo ''[onVideoClick] webcam already started - bailing'' s)
      else
        let s1 = resetScanMetrics (hideErrorPanel s) in
        case startWebcam c of
          Inl e \<Rightarrow>
            Done () (showErrorPanel (message e) (logError (''[onVideoClick] '' @ message e) s1))
        | Inr _ \<Rightarrow>
            (case scanLoop c tks None (enterLoop c s1) of
               Pending s3 \<Rightarrow> Pending s3
             | Done result s3 \<Rightarrow> Done () (afterLoop c result s3)))"

subsection \<open>The host: handlers that interleave\<close>

text \<open>
  The host runs one piece of code at a time, from an event to the next \<open>await\<close>. A
  handler of \<open>onVideoClick\<close> that is suspended is the \<open>await\<close> it waits at, with the
  value of \<open>result\<close> where the code after the \<open>await\<close> reads it.
\<close>

datatype handler =
    AtStartWebcam
  | AtCaptureWebcam "scanResult option"
  | AtScanPuzzle imageData
  | AtNextFrame "scanResult option"
  | Returned

text \<open>
  The events: a click on the video button, a click on the cancel button, and the promise
  that handler \<open>i\<close> awaits settling; the value is what \<open>captureWebcam\<close> yields when
  that is the promise awaited.
\<close>

datatype event = ClickVideo | ClickCancel | Settle nat "jsError + imageData option"

record host =
  shared :: state
  handlers :: "handler list"

text \<open>The head of the \<open>while\<close> loop, up to the \<open>await\<close> of \<open>captureWebcam\<close>.\<close>

definition loopHead :: "collab \<Rightarrow> scanResult option \<Rightarrow> state \<Rightarrow> handler \<times> state" where
  "loopHead c result s =
     (if webcamStarted s
      then (AtCaptureWebcam result, invoke CallCaptureWebcam (clearMarks s))
      else (Returned, afterLoop c result s))"

text \<open>The end of a pass that does not \<open>break\<close>, after its \<open>finally\<close> block.\<close>

definition waitNextFrame :: "scanResult option \<Rightarrow> state \<Rightarrow> handler \<times> state" where
  "waitNextFrame result s =
     (AtNextFrame result, logInfo ''[onVideoClick] waiting for next frame...'' s)"

text \<open>
  The code a handler runs when the promise it awaits settles, in the state the host has
  reached by then, up to its next \<open>await\<close> or its return. After the \<open>await\<close> of
  \<open>scanPuzzle\<close> that code is the rest of \<open>processImage\<close>: \<open>processImage\<close> with the
  current state as what the host left while it was suspended.
\<close>

definition resume ::
  "collab \<Rightarrow> handler \<Rightarrow> jsError + imageData option \<Rightarrow> state \<Rightarrow> handler \<times> state" where
  "resume c t v s =
     (case t of
        AtStartWebcam \<Rightarrow>
          (case startWebcam c of
             Inl e \<Rightarrow>
               (Returned, showErrorPanel (message e) (logError (''[onVideoClick] '' @ message e) s))
           | Inr _ \<Rightarrow> loopHead c None (enterLoop c s))
      | AtCaptureWebcam result \<Rightarrow>
          (case v of
             Inl e \<Rightarrow>
               waitNextFrame result
                 (logPerformanceMetrics
                    (showErrorPanel (message e) (logError (''[onVideoClick] '' @ message e) s)))
           | Inr None \<Rightarrow>
               (Returned, afterLoop c result (logPerformanceMetrics (mark ''captureWebcam'' s)))
           | Inr (Some imageData) \<Rightarrow>
               (AtScanPuzzle imageData,
                invoke (CallScanPuzzle imageData) (mark ''captureWebcam'' s)))
      | AtScanPuzzle imageData \<Rightarrow>
          (case processImage c (\<lambda>_. s) imageData s of
             (r, s') \<Rightarrow>
               if r \<noteq> None then (Returned, afterLoop c r (logPerformanceMetrics s'))
               else waitNextFrame r (logPerformanceMetrics s'))
      | AtNextFrame result \<Rightarrow> loopHead c result s
      | Returned \<Rightarrow> (Returned, s))"

text \<open>
  One event. A click on the video button runs \<open>onVideoClick\<close> up to its first \<open>await\<close>:
  the guard on \<open>isWebcamStarted()\<close>, then \<open>hideErrorPanel\<close>, \<open>resetScanMetrics\<close> and the
  call of \<open>startWebcam\<close>, whose promise a new handler awaits.
\<close>

definition hostStep :: "collab \<Rightarrow> host \<Rightarrow> event \<Rightarrow> host" where
  "hostStep c h ev =
     (case ev of
        ClickVideo \<Rightarrow>
          if webcamStarted (shared h)
          then h\<lparr>shared := logInfo ''[onVideoClick] webcam already started - bailing'' (shared h)\<rparr>
          else h\<lparr>shared := resetScanMetrics (hideErrorPanel (shared h)),
                 handlers := handlers h @ [AtStartWebcam]\<rparr>
      | ClickCancel \<Rightarrow> h\<lparr>shared := clickCancel c (shared h)\<rparr>
      | Settle i v \<Rightarrow>
          if i < length (handlers h)
          then (case resume c (handlers h ! i) v (shared h) of
                  (t, s) \<Rightarrow> \<lparr>shared = s, handlers = (handlers h)[i := t]\<rparr>)
          else h)"

definition hostRun :: "collab \<Rightarrow> event list \<Rightarrow> host \<Rightarrow> host" where
  "hostRun c evs h = foldl (hostStep c) h evs"

text \<open>
  The events of one pass of handler 0 when nothing else happens: the capture settles,
  recognition settles when a frame was captured, and the next frame arrives.
\<close>

definition passEvents :: "tick \<Rightarrow> event list" where
  "passEvents tk =
     Settle 0 (capture tk)
       # (case capture tk of Inr (Some _) \<Rightarrow> [Settle 0 (Inr None)] | _ \<Rightarrow> [])
       @ [Settle 0 (Inr None)]"

text \<open>The handlers that are inside the loop of \<open>onVideoClick\<close>.\<close>

fun looping :: "handler \<Rightarrow> bool" where
  "looping (AtCaptureWebcam _) = True"
| "looping (AtScanPuzzle _) = True"
| "looping (AtNextFrame _) = True"
| "looping _ = False"

fun stateOf :: "'a run \<Rightarrow> state" where
  "stateOf (Done _ s) = s"
| "stateOf (Pending s) = s"


fun isCallDrawPuzzle :: "call \<Rightarrow> bool" where
  "isCallDrawPuzzle (CallDrawPuzzle _ _) = True"
| "isCallDrawPuzzle _ = False"


definition drawCalls :: "state \<Rightarrow> call list" where
  "drawCalls s = filter isCallDrawPuzzle (calls s)"

text \<open>
  Whether a pass from state \<open>s\<close> suspends at an \<open>await\<close>: every pass awaits
  \<open>captureWebcam\<close>, a pass that captured a frame awaits \<open>processImage\<close>, and a pass
  that does not \<open>break\<close> awaits \<open>tf.nextFrame\<close>.
\<close>

definition suspendsAt :: "collab \<Rightarrow> tick \<Rightarrow> state \<Rightarrow> awaitPoint \<Rightarrow> bool" where
  "suspendsAt c tk s p =
     (case p of
        AwaitCaptureWebcam \<Rightarrow> True
      | AwaitProcessImage \<Rightarrow> (case capture tk of Inr (Some _) \<Rightarrow> True | _ \<Rightarrow> False)
      | AwaitNextFrame \<Rightarrow> \<not> fst (loopBody c tk None s))"

text \<open>Every request sent so far carries at most 100 sets of marks.\<close>

definition postedBounded :: "state \<Rightarrow> bool" where
  "postedBounded s = list_all (\<lambda>d. length (m_markss d) \<le> 100) (posted s)"

subsection \<open>A concrete environment\<close>

text \<open>
  Modelled from the spec: the constraint gate of the validator (\<open>./puzzle\<close>) is the
  Sudoku rule check, no repeated digit in any row, column or 3x3 box.
\<close>

definition rowOf :: "nat \<Rightarrow> nat" where
  "rowOf i = i div 9"

definition colOf :: "nat \<Rightarrow> nat" where
  "colOf i = i mod 9"

definition boxOf :: "nat \<Rightarrow> nat" where
  "boxOf i = 3 * (i div 27) + (i mod 9) div 3"

definition noRepeat :: "(nat \<Rightarrow> nat) \<Rightarrow> digitPrediction list \<Rightarrow> bool" where
  "noRepeat unit ds = distinct (map (\<lambda>(i, d). (unit i, d)) ds)"

definition uniqueInUnits :: "digitPrediction list \<Rightarrow> bool" where
  "uniqueInUnits ds = (noRepeat rowOf ds \<and> noRepeat colOf ds \<and> noRepeat boxOf ds)"

text \<open>Thirty clues of a valid grid, the grid they come from, and the puzzle they form.\<close>

definition exClues :: "digitPrediction list" where
  "exClues =
     [(0, 1), (2, 3), (4, 5), (7, 8), (9, 4), (12, 7), (14, 9), (17, 3), (19, 8), (21, 1),
      (24, 4), (26, 6), (28, 3), (30, 5), (33, 8), (35, 1), (37, 6), (40, 9), (43, 3), (45, 8),
      (47, 1), (50, 4), (52, 6), (54, 3), (57, 6), (61, 1), (63, 6), (68, 2), (72, 9), (80, 8)]"

definition exSolution :: grid where
  "exSolution =
     [1, 2, 3, 4, 5, 6, 7, 8, 9,  4, 5, 6, 7, 8, 9, 1, 2, 3,  7, 8, 9, 1, 2, 3, 4, 5, 6,
      2, 3, 4, 5, 6, 7, 8, 9, 1,  5, 6, 7, 8, 9, 1, 2, 3, 4,  8, 9, 1, 2, 3, 4, 5, 6, 7,
      3, 4, 5, 6, 7, 8, 9, 1, 2,  6, 7, 8, 9, 1, 2, 3, 4, 5,  9, 1, 2, 3, 4, 5, 6, 7, 8]"

text \<open>The stub validator writes a puzzle as the digits of its clues, in clue order.\<close>

definition exPuzzle :: "digitPrediction list \<Rightarrow> grid" where
  "exPuzzle ds = map snd ds"

definition noPuzzleFound :: jsError where
  "noPuzzleFound = \<lparr>message = ''no puzzle found'', isScanException = True\<rparr>"

definition boom :: jsError where
  "boom = \<lparr>message = ''boom'', isScanException = False\<rparr>"

text \<open>
  Frames of the stub camera: the empty frame shows no puzzle, \<open>[0]\<close> makes recognition
  fail unexpectedly, \<open>[16]\<close> and \<open>[17]\<close> show the first 16 and 17 clues, \<open>[17, 17]\<close>
  shows 17 clues and a misread second 1 in the first row, any other frame all 30 clues.
\<close>

definition exScanPuzzle :: "imageData \<Rightarrow> jsError + digitPrediction list" where
  "exScanPuzzle img =
     (if img = [] then Inl noPuzzleFound
      else if img = [0] then Inl boom
      else if img = [16] then Inr (take 16 exClues)
      else if img = [17] then Inr (take 17 exClues)
      else if img = [17, 17] then Inr (take 17 exClues @ [(8, 1)])
      else Inr exClues)"

text \<open>The stub solver knows the 30-clue puzzle and finds nothing for any other.\<close>

definition exSolve :: "grid \<Rightarrow> nat \<Rightarrow> jsError + grid list" where
  "exSolve p n = Inr (if p = exPuzzle exClues then take n [exSolution] else [])"

definition exCollab :: collab where
  "exCollab =
     \<lparr>fpsOn = False,
      startWebcam = Inr (),
      scanPuzzle = exScanPuzzle,
      satisfiesAllConstraints = (\<lambda>ds. Inr (uniqueInUnits ds)),
      digitPredictionsToPuzzle = (\<lambda>ds. Inr (exPuzzle ds)),
      getInitialValues = (\<lambda>p. Inr p),
      solve = exSolve,
      drawPuzzle = (\<lambda>iv sol. Inr ()),
      imageDataToDataURL = (\<lambda>img. Inr ''data:image/png''),
      axiosPost = (\<lambda>d. Inr ())\<rparr>"

definition exIdle :: state where
  "exIdle =
     \<lparr>webcamStarted = False, displayMode = DISPLAY_MODE_INSTRUCTIONS, cancelButton = False,
      errorPanel = None, stats = False, frameCount = 0, markss = [], marks = [],
      logged = [], calls = [], posted = []\<rparr>"

text \<open>The state in which \<open>onVideoClick\<close> enters the loop from \<open>exIdle\<close>.\<close>

definition exLooping :: state where
  "exLooping =
     exIdle\<lparr>webcamStarted := True, displayMode := DISPLAY_MODE_VIDEO, cancelButton := True\<rparr>"

definition frameTick :: "imageData \<Rightarrow> tick" where
  "frameTick img = \<lparr>capture = Inr (Some img), cancel = None\<rparr>"

text \<open>The stub environment with a display that fails to draw.\<close>

definition exCollabNoDraw :: collab where
  "exCollabNoDraw = exCollab\<lparr>drawPuzzle := (\<lambda>iv sol. Inl boom)\<rparr>"

text \<open>A pass over a frame with no puzzle, with a cancel click during the wait that follows.\<close>

definition cancelTick :: tick where
  "cancelTick = \<lparr>capture = Inr (Some []), cancel = Some AwaitNextFrame\<rparr>"

text \<open>The host before the first click, and the value of a promise other than a capture.\<close>

definition exHost :: host where
  "exHost = \<lparr>shared = exIdle, handlers = []\<rparr>"

definition settled :: "jsError + imageData option" where
  "settled = Inr None"

section \<open>Basic facts\<close>

subsection \<open>Effects of the primitives\<close>

lemmas prim_defs = logInfo_def logError_def showErrorPanel_def hideErrorPanel_def
  setDisplayMode_def showCancelButton_def hideCancelButton_def clearMarks_def mark_def
  invoke_def showStats_def hideStats_def stopWebcam_def resetScanMetrics_def enterLoop_def

lemma saveScanMetrics_fields [simp]:
  "webcamStarted (saveScanMetrics c oc u sol s) = webcamStarted s"
  "displayMode (saveScanMetrics c oc u sol s) = displayMode s"
  "cancelButton (saveScanMetrics c oc u sol s) = cancelButton s"
  "errorPanel (saveScanMetrics c oc u sol s) = errorPanel s"
  "stats (saveScanMetrics c oc u sol s) = stats s"
  "frameCount (saveScanMetrics c oc u sol s) = frameCount s"
  "markss (saveScanMetrics c oc u sol s) = markss s"
  "marks (saveScanMetrics c oc u sol s) = marks s"
  "calls (saveScanMetrics c oc u sol s) = calls s"
  "posted (saveScanMetrics c oc u sol s) =
     posted s @ [\<lparr>m_outcome = oc, m_frameCount = frameCount s,
                   m_markss = sliceLast 100 (markss s),
                   m_imageDataURL = u, m_solution = sol\<rparr>]"
  by (simp_all add: saveScanMetrics_def Let_def logError_def split: sum.splits)

lemma onCancel_fields [simp]:
  "webcamStarted (onCancel c s) = False"
  "displayMode (onCancel c s) = DISPLAY_MODE_INSTRUCTIONS"
  "cancelButton (onCancel c s) = False"
  "errorPanel (onCancel c s) = errorPanel s"
  "frameCount (onCancel c s) = frameCount s"
  "markss (onCancel c s) = markss s"
  "marks (onCancel c s) = marks s"
  "calls (onCancel c s) = calls s"
  "posted (onCancel c s) =
     posted s @ [\<lparr>m_outcome = ''cancelled'', m_frameCount = frameCount s,
                   m_markss = sliceLast 100 (markss s),
                   m_imageDataURL = None, m_solution = None\<rparr>]"
  by (simp_all add: onCancel_def prim_defs)

lemma cancelAt_fields [simp]:
  "errorPanel (cancelAt c p tk s) = errorPanel s"
  "frameCount (cancelAt c p tk s) = frameCount s"
  "markss (cancelAt c p tk s) = markss s"
  "marks (cancelAt c p tk s) = marks s"
  "calls (cancelAt c p tk s) = calls s"
  by (simp_all add: cancelAt_def clickCancel_def)

lemma cancelAt_None [simp]: "cancel tk = None \<Longrightarrow> cancelAt c p tk s = s"
  by (simp add: cancelAt_def)

lemmas pass_defs = loopBody_def processImage_def processImage_try_def raisesOr_def
  logPerformanceMetrics_def Let_def


lemma cancelAt_more [simp]:
  "webcamStarted (cancelAt c p tk s) =
     (if cancel tk = Some p \<and> cancelButton s then False else webcamStarted s)"
  "cancelButton (cancelAt c p tk s) = (if cancel tk = Some p then False else cancelButton s)"
  "displayMode (cancelAt c p tk s) =
     (if cancel tk = Some p \<and> cancelButton s then DISPLAY_MODE_INSTRUCTIONS else displayMode s)"
  "posted (cancelAt c p tk s) =
     (if cancel tk = Some p \<and> cancelButton s
      then posted s @ [\<lparr>m_outcome = ''cancelled'', m_frameCount = frameCount s,
                        m_markss = sliceLast 100 (markss s),
                        m_imageDataURL = None, m_solution = None\<rparr>]
      else posted s)"
  by (auto simp: cancelAt_def clickCancel_def)

subsection \<open>Processing one frame\<close>



lemma logPerformanceMetrics_fields [simp]:
  "webcamStarted (logPerformanceMetrics s) = webcamStarted s"
  "displayMode (logPerformanceMetrics s) = displayMode s"
  "cancelButton (logPerformanceMetrics s) = cancelButton s"
  "errorPanel (logPerformanceMetrics s) = errorPanel s"
  "marks (logPerformanceMetrics s) = marks s"
  "calls (logPerformanceMetrics s) = calls s"
  "posted (logPerformanceMetrics s) = posted s"
  by (simp_all add: logPerformanceMetrics_def)


lemma processImage_try_untouched [simp]:
  "webcamStarted (snd (processImage_try c k img s)) = webcamStarted (k (invoke (CallScanPuzzle img) s))"
  "cancelButton (snd (processImage_try c k img s)) = cancelButton (k (invoke (CallScanPuzzle img) s))"
  "errorPanel (snd (processImage_try c k img s)) = errorPanel (k (invoke (CallScanPuzzle img) s))"
  "stats (snd (processImage_try c k img s)) = stats (k (invoke (CallScanPuzzle img) s))"
  "frameCount (snd (processImage_try c k img s)) = frameCount (k (invoke (CallScanPuzzle img) s))"
  "markss (snd (processImage_try c k img s)) = markss (k (invoke (CallScanPuzzle img) s))"
  "logged (snd (processImage_try c k img s)) = logged (k (invoke (CallScanPuzzle img) s))"
  "posted (snd (processImage_try c k img s)) = posted (k (invoke (CallScanPuzzle img) s))"
  by (simp_all add: processImage_try_def raisesOr_def Let_def prim_defs split: sum.splits)

lemma processImage_untouched [simp]:
  "webcamStarted (snd (processImage c k img s)) = webcamStarted (k (invoke (CallScanPuzzle img) s))"
  "cancelButton (snd (processImage c k img s)) = cancelButton (k (invoke (CallScanPuzzle img) s))"
  "stats (snd (processImage c k img s)) = stats (k (invoke (CallScanPuzzle img) s))"
  "frameCount (snd (processImage c k img s)) = frameCount (k (invoke (CallScanPuzzle img) s))"
  "markss (snd (processImage c k img s)) = markss (k (invoke (CallScanPuzzle img) s))"
  "posted (snd (processImage c k img s)) = posted (k (invoke (CallScanPuzzle img) s))"
  "displayMode (snd (processImage c k img s)) = displayMode (snd (processImage_try c k img s))"
  "calls (snd (processImage c k img s)) = calls (snd (processImage_try c k img s))"
  "marks (snd (processImage c k img s)) = marks (snd (processImage_try c k img s))"
  by (simp_all add: processImage_def Let_def logError_def showErrorPanel_def split_beta
           split: sum.splits)



subsection \<open>Passes of the loop\<close>

lemma loopBody_frame:
  "capture tk = Inr (Some img) \<Longrightarrow>
   loopBody c tk r s =
     (fst (processImage c (cancelAt c AwaitProcessImage tk) img
             (mark ''captureWebcam''
                (cancelAt c AwaitCaptureWebcam tk (invoke CallCaptureWebcam (clearMarks s)))))
        \<noteq> None,
      fst (processImage c (cancelAt c AwaitProcessImage tk) img
             (mark ''captureWebcam''
                (cancelAt c AwaitCaptureWebcam tk (invoke CallCaptureWebcam (clearMarks s))))),
      logPerformanceMetrics
        (snd (processImage c (cancelAt c AwaitProcessImage tk) img
                (mark ''captureWebcam''
                   (cancelAt c AwaitCaptureWebcam tk (invoke CallCaptureWebcam (clearMarks s)))))))"
  by (simp add: loopBody_def Let_def split: prod.splits)





subsection \<open>Requests sent\<close>

lemma sliceLast_length: "length (sliceLast n xs) = min n (length xs)"
  by (simp add: sliceLast_def)

lemma postedBounded_eq: "posted s' = posted s \<Longrightarrow> postedBounded s' = postedBounded s"
  by (simp add: postedBounded_def)

lemma postedBounded_saveScanMetrics:
  "postedBounded s \<Longrightarrow> postedBounded (saveScanMetrics c oc u sol s)"
  by (simp add: postedBounded_def sliceLast_length)

lemma postedBounded_cancelAt: "postedBounded s \<Longrightarrow> postedBounded (cancelAt c p tk s)"
  by (simp add: postedBounded_def sliceLast_length)

lemma postedBounded_loopBody:
  assumes "postedBounded s"
  shows "postedBounded (snd (snd (loopBody c tk r s)))"
proof -
  let ?s1 = "cancelAt c AwaitCaptureWebcam tk (invoke CallCaptureWebcam (clearMarks s))"
  have s1: "postedBounded ?s1"
    using assms postedBounded_cancelAt postedBounded_eq [of "invoke CallCaptureWebcam (clearMarks s)" s]
    by (simp add: prim_defs)
  show ?thesis
  proof (cases "capture tk")
    case (Inl e)
    then show ?thesis
      using s1 postedBounded_eq [of "logPerformanceMetrics
             (showErrorPanel (message e) (logError (''[onVideoClick] '' @ message e) ?s1))" ?s1]
      by (simp add: loopBody_def Let_def prim_defs)
  next
    case (Inr x)
    show ?thesis
    proof (cases x)
      case None
      with Inr show ?thesis
        using s1 postedBounded_eq [of "logPerformanceMetrics (mark ''captureWebcam'' ?s1)" ?s1]
        by (simp add: loopBody_def Let_def prim_defs)
    next
      case (Some img)
      let ?s2 = "cancelAt c AwaitProcessImage tk
                   (invoke (CallScanPuzzle img) (mark ''captureWebcam'' ?s1))"
      have "postedBounded (invoke (CallScanPuzzle img) (mark ''captureWebcam'' ?s1))"
        using s1 postedBounded_eq [of "invoke (CallScanPuzzle img) (mark ''captureWebcam'' ?s1)" ?s1]
        by (simp add: prim_defs)
      then have "postedBounded ?s2" by (rule postedBounded_cancelAt)
      moreover have "posted (snd (snd (loopBody c tk r s))) = posted ?s2"
        using Inr Some by (simp add: loopBody_frame)
      ultimately show ?thesis by (simp add: postedBounded_def)
    qed
  qed
qed

lemma postedBounded_scanLoop:
  "postedBounded s \<Longrightarrow> postedBounded (stateOf (scanLoop c tks r s))"
proof (induction tks arbitrary: r s)
  case Nil
  then show ?case by simp
next
  case (Cons tk tks)
  obtain b r' s' where lb: "loopBody c tk r s = (b, r', s')"
    by (cases "loopBody c tk r s") auto
  have s': "postedBounded s'"
    using postedBounded_loopBody [OF Cons.prems, of c tk r] lb by simp
  have "postedBounded (cancelAt c AwaitNextFrame tk
          (logInfo ''[onVideoClick] waiting for next frame...'' s'))"
    using s' postedBounded_eq [of "logInfo ''[onVideoClick] waiting for next frame...'' s'" s']
    by (simp add: postedBounded_cancelAt logInfo_def)
  then show ?case
    using Cons.prems Cons.IH lb s' by simp
qed

lemma postedBounded_afterLoop: "postedBounded s \<Longrightarrow> postedBounded (afterLoop c r s)"
  by (simp add: afterLoop_def postedBounded_def sliceLast_length prim_defs split: option.splits)

subsection \<open>Passes over frames that show no puzzle\<close>

lemma noPuzzle_pass:
  "\<exists>s'. loopBody exCollab (frameTick []) None s = (False, None, s')
      \<and> webcamStarted s' = webcamStarted s
      \<and> length (markss s') = Suc (length (markss s))"
  by (simp add: pass_defs prim_defs exCollab_def exScanPuzzle_def frameTick_def noPuzzleFound_def)

lemma noPuzzle_loop:
  "webcamStarted s \<Longrightarrow>
   \<exists>s'. scanLoop exCollab (replicate n (frameTick [])) None s = Pending s'
      \<and> length (markss s') = length (markss s) + n"
proof (induction n arbitrary: s)
  case 0
  then show ?case by simp
next
  case (Suc n)
  obtain s1 where lb: "loopBody exCollab (frameTick []) None s = (False, None, s1)"
      and s1: "webcamStarted s1 = webcamStarted s" "length (markss s1) = Suc (length (markss s))"
    using noPuzzle_pass [of s] by blast
  let ?s2 = "logInfo ''[onVideoClick] waiting for next frame...'' s1"
  have "webcamStarted ?s2" "length (markss ?s2) = Suc (length (markss s))"
    using s1 Suc.prems by (simp_all add: logInfo_def)
  with Suc.IH [of ?s2] obtain s' where
    "scanLoop exCollab (replicate n (frameTick [])) None ?s2 = Pending s'"
    "length (markss s') = Suc (length (markss s)) + n"
    by auto
  with lb Suc.prems show ?case
    by (simp add: frameTick_def)
qed

subsection \<open>After a cancel click\<close>

lemma scanLoop_stopped: "\<not> webcamStarted s \<Longrightarrow> scanLoop c tks r s = Done r s"
  by (cases tks) simp_all

lemma afterLoop_stopped: "\<not> webcamStarted s \<Longrightarrow> afterLoop c r s = logInfo tfMemoryLine s"
  by (simp add: afterLoop_def split: option.splits)

lemma cancelAt_other: "cancel tk = Some p \<Longrightarrow> q \<noteq> p \<Longrightarrow> cancelAt c q tk s = s"
  by (auto simp: cancelAt_def)

lemma cancelAt_hit: "cancel tk = Some p \<Longrightarrow> cancelButton s \<Longrightarrow> cancelAt c p tk s = onCancel c s"
  by (simp add: cancelAt_def clickCancel_def)

lemma processImage_try_display:
  assumes "\<And>t. calls (k t) = calls t"
  shows "displayMode (snd (processImage_try c k img s)) =
           (if length (drawCalls (snd (processImage_try c k img s))) = length (drawCalls s)
            then displayMode (k (invoke (CallScanPuzzle img) s)) else DISPLAY_MODE_SOLUTION)"
  using assms
  by (simp add: processImage_try_def raisesOr_def Let_def prim_defs drawCalls_def
           split: sum.splits)

text \<open>The state in which a pass that is not cancelled before its end leaves the loop body.\<close>

lemma loopBody_uncancelled:
  assumes "cancel tk = Some AwaitNextFrame"
  shows "webcamStarted (snd (snd (loopBody c tk r s))) = webcamStarted s"
    and "cancelButton (snd (snd (loopBody c tk r s))) = cancelButton s"
    and "posted (snd (snd (loopBody c tk r s))) = posted s"
    and "r = None \<Longrightarrow> \<not> fst (loopBody c tk r s) \<Longrightarrow> fst (snd (loopBody c tk r s)) = None"
proof -
  have id: "\<And>q t. q \<noteq> AwaitNextFrame \<Longrightarrow> cancelAt c q tk t = t"
    using assms by (simp add: cancelAt_other)
  show "webcamStarted (snd (snd (loopBody c tk r s))) = webcamStarted s"
       "cancelButton (snd (snd (loopBody c tk r s))) = cancelButton s"
       "posted (snd (snd (loopBody c tk r s))) = posted s"
       "r = None \<Longrightarrow> \<not> fst (loopBody c tk r s) \<Longrightarrow> fst (snd (loopBody c tk r s)) = None"
    by (auto simp: loopBody_def Let_def id prim_defs split_beta split: sum.splits option.splits)
qed

subsection \<open>Sessions of several passes\<close>

lemma loopBody_no_break:
  "\<not> fst (loopBody c tk None s) \<Longrightarrow> fst (snd (loopBody c tk None s)) = None"
  by (auto simp: loopBody_def Let_def split_beta split: sum.splits option.splits)

lemma scanLoop_append:
  "scanLoop c (pre @ rest) None s =
     (case scanLoop c pre None s of
        Pending s' \<Rightarrow> scanLoop c rest None s'
      | Done r s' \<Rightarrow> Done r s')"
proof (induction pre arbitrary: s)
  case Nil
  then show ?case by (simp add: scanLoop_stopped)
next
  case (Cons tk pre)
  obtain b r' s' where lb: "loopBody c tk None s = (b, r', s')"
    by (cases "loopBody c tk None s") auto
  show ?case
  proof (cases "webcamStarted s \<and> \<not> b")
    case True
    then have "r' = None" using loopBody_no_break [of c tk s] lb by simp
    with True lb Cons.IH show ?thesis by simp
  next
    case False
    with lb show ?thesis by auto
  qed
qed

lemma scanLoop_Pending: "scanLoop c tks r s = Pending s' \<Longrightarrow> webcamStarted s'"
proof (induction tks arbitrary: r s)
  case Nil
  then show ?case by (simp split: if_split_asm)
next
  case (Cons tk tks)
  then show ?case by (auto split: if_split_asm prod.splits)
qed

subsection \<open>A session that outgrows the bound\<close>

lemma noPuzzle_pass_fields:
  "\<exists>s'. loopBody exCollab (frameTick []) None s = (False, None, s')
      \<and> webcamStarted s' = webcamStarted s
      \<and> length (markss s') = Suc (length (markss s))
      \<and> posted s' = posted s \<and> cancelButton s' = cancelButton s"
  by (simp add: pass_defs prim_defs exCollab_def exScanPuzzle_def frameTick_def noPuzzleFound_def)

lemma noPuzzle_loop_posted:
  "webcamStarted s \<Longrightarrow>
   \<exists>s'. scanLoop exCollab (replicate n (frameTick [])) None s = Pending s'
      \<and> length (markss s') = length (markss s) + n \<and> posted s' = posted s
      \<and> cancelButton s' = cancelButton s"
proof (induction n arbitrary: s)
  case 0
  then show ?case by simp
next
  case (Suc n)
  obtain s1 where lb: "loopBody exCollab (frameTick []) None s = (False, None, s1)"
      and s1: "webcamStarted s1 = webcamStarted s" "length (markss s1) = Suc (length (markss s))"
        "posted s1 = posted s" "cancelButton s1 = cancelButton s"
    using noPuzzle_pass_fields [of s] by blast
  let ?s2 = "logInfo ''[onVideoClick] waiting for next frame...'' s1"
  have "webcamStarted ?s2" "length (markss ?s2) = Suc (length (markss s))" "posted ?s2 = posted s"
      "cancelButton ?s2 = cancelButton s"
    using s1 Suc.prems by (simp_all add: logInfo_def)
  with Suc.IH [of ?s2] obtain s' where
    "scanLoop exCollab (replicate n (frameTick [])) None ?s2 = Pending s'"
    "length (markss s') = Suc (length (markss s)) + n" "posted s' = posted s"
    "cancelButton s' = cancelButton s"
    by auto
  with lb Suc.prems show ?case
    by (simp add: frameTick_def)
qed

lemma cancel_after_100_passes:
  "\<exists>d. posted (stateOf (onVideoClick exCollab (replicate 100 (frameTick []) @ [cancelTick]) exIdle))
          = [d]
      \<and> m_outcome d = ''cancelled'' \<and> length (m_markss d) = 100"
proof -
  let ?s2 = "enterLoop exCollab (resetScanMetrics (hideErrorPanel exIdle))"
  have s2: "webcamStarted ?s2" "markss ?s2 = []" "posted ?s2 = []" "cancelButton ?s2"
    by (simp_all add: prim_defs exCollab_def exIdle_def)
  with noPuzzle_loop_posted [of ?s2 100] obtain s1 where
    run: "scanLoop exCollab (replicate 100 (frameTick [])) None ?s2 = Pending s1"
    and s1: "length (markss s1) = 100" "posted s1 = []" "cancelButton s1"
    by auto
  have started: "webcamStarted s1"
    using run by (rule scanLoop_Pending)
  have "\<exists>s' d. scanLoop exCollab [cancelTick] None s1 = Done None s' \<and> posted s' = [d]
      \<and> m_outcome d = ''cancelled'' \<and> length (m_markss d) = 100
      \<and> \<not> webcamStarted s'"
    using s1 started
    by (simp add: cancelTick_def pass_defs prim_defs exCollab_def exScanPuzzle_def
          noPuzzleFound_def cancelAt_def clickCancel_def onCancel_def saveScanMetrics_def
          sliceLast_def)
  then obtain s' d where "scanLoop exCollab [cancelTick] None s1 = Done None s'"
      "posted s' = [d]" "m_outcome d = ''cancelled''" "length (m_markss d) = 100"
      "\<not> webcamStarted s'"
    by blast
  moreover have "\<not> webcamStarted exIdle" "startWebcam exCollab = Inr ()"
    by (simp_all add: exIdle_def exCollab_def)
  ultimately show ?thesis
    using run scanLoop_append [of exCollab "replicate 100 (frameTick [])" "[cancelTick]" ?s2]
    by (simp add: onVideoClick_def afterLoop_def logInfo_def del: scanLoop.simps replicate.simps)
qed

subsection \<open>The host and the handler on its own\<close>

text \<open>
  A pass that the host runs for one handler with no other event in between does what
  \<open>loopBody\<close> does in a pass with no cancel click.
\<close>

lemma processImage_try_host:
  "processImage_try c k img s =
     processImage_try c (\<lambda>_. k (invoke (CallScanPuzzle img) s)) img s'"
  by (simp add: processImage_try_def)

lemma processImage_host:
  "processImage c k img s = processImage c (\<lambda>_. k (invoke (CallScanPuzzle img) s)) img s'"
  using processImage_try_host [of c k img s s'] by (simp add: processImage_def)

lemma host_pass:
  assumes "cancel tk = None"
  shows "(case resume c (AtCaptureWebcam r) (capture tk) (invoke CallCaptureWebcam (clearMarks s)) of
            (AtScanPuzzle img, s1) \<Rightarrow> resume c (AtScanPuzzle img) v s1
          | (t, s1) \<Rightarrow> (t, s1))
         = (case loopBody c tk r s of
              (brk, r', s') \<Rightarrow>
                if brk then (Returned, afterLoop c r' s') else waitNextFrame r' s')"
proof (cases "capture tk")
  case (Inl e)
  with assms show ?thesis
    by (simp add: resume_def loopBody_def Let_def waitNextFrame_def)
next
  case (Inr x)
  show ?thesis
  proof (cases x)
    case None
    with Inr assms show ?thesis
      by (simp add: resume_def loopBody_def Let_def)
  next
    case (Some img)
    let ?s0 = "mark ''captureWebcam'' (invoke CallCaptureWebcam (clearMarks s))"
    have "processImage c (cancelAt c AwaitProcessImage tk) img ?s0
            = processImage c (\<lambda>_. invoke (CallScanPuzzle img) ?s0) img (invoke (CallScanPuzzle img) ?s0)"
      using processImage_host [of c "cancelAt c AwaitProcessImage tk" img ?s0] assms by simp
    with Inr Some assms show ?thesis
      by (simp add: resume_def loopBody_def Let_def split_beta)
  qed
qed

lemma hostRun_Nil [simp]: "hostRun c [] h = h"
  by (simp add: hostRun_def)

lemma hostRun_Cons [simp]: "hostRun c (ev # evs) h = hostRun c evs (hostStep c h ev)"
  by (simp add: hostRun_def)

lemma hostRun_append: "hostRun c (evs @ evs') h = hostRun c evs' (hostRun c evs h)"
  by (simp add: hostRun_def)

lemma hostStep_Returned [simp]:
  "hostStep c \<lparr>shared = s, handlers = [Returned]\<rparr> (Settle 0 v) = \<lparr>shared = s, handlers = [Returned]\<rparr>"
  by (simp add: hostStep_def resume_def)

lemma hostRun_Returned:
  "hostRun c (concat (map passEvents tks)) \<lparr>shared = s, handlers = [Returned]\<rparr>
     = \<lparr>shared = s, handlers = [Returned]\<rparr>"
  by (induction tks) (simp_all add: passEvents_def hostRun_append split: sum.splits option.splits)

lemma hostStep_Settle0:
  "hostStep c \<lparr>shared = s, handlers = [t]\<rparr> (Settle 0 v) =
     \<lparr>shared = snd (resume c t v s), handlers = [fst (resume c t v s)]\<rparr>"
  by (simp add: hostStep_def split_beta)

text \<open>One handler, no cancel click: the host does what \<open>scanLoop\<close> does.\<close>

lemma host_loop:
  assumes "\<forall>tk \<in> set tks. cancel tk = None"
  shows "hostRun c (concat (map passEvents tks))
           \<lparr>shared = snd (loopHead c None s), handlers = [fst (loopHead c None s)]\<rparr>
         = (case scanLoop c tks None s of
              Done r s' \<Rightarrow> \<lparr>shared = afterLoop c r s', handlers = [Returned]\<rparr>
            | Pending s' \<Rightarrow> \<lparr>shared = invoke CallCaptureWebcam (clearMarks s'),
                              handlers = [AtCaptureWebcam None]\<rparr>)"
  using assms
proof (induction tks arbitrary: s)
  case Nil
  then show ?case by (simp add: loopHead_def)
next
  case (Cons tk tks)
  show ?case
  proof (cases "webcamStarted s")
    case False
    then show ?thesis
      using hostRun_Returned [of c "tk # tks" "afterLoop c None s"]
      by (simp add: loopHead_def del: hostRun_Cons)
  next
    case True
    have nc: "cancel tk = None" using Cons.prems by simp
    obtain b r' s' where lb: "loopBody c tk None s = (b, r', s')"
      by (cases "loopBody c tk None s") auto
    let ?s0 = "invoke CallCaptureWebcam (clearMarks s)"
    let ?h0 = "\<lparr>shared = ?s0, handlers = [AtCaptureWebcam None]\<rparr>"
    have pass: "hostRun c (passEvents tk) ?h0 =
        (if b then \<lparr>shared = afterLoop c r' s', handlers = [Returned]\<rparr>
         else \<lparr>shared = snd (loopHead c None (logInfo ''[onVideoClick] waiting for next frame...'' s')),
               handlers = [fst (loopHead c None (logInfo ''[onVideoClick] waiting for next frame...'' s'))]\<rparr>)"
    proof -
      have r': "\<not> b \<Longrightarrow> r' = None"
        using loopBody_no_break [of c tk s] lb by simp
      from host_pass [OF nc, where c = c and r = None and s = s and v = "Inr None"] lb
      have hp: "(case resume c (AtCaptureWebcam None) (capture tk) ?s0 of
            (AtScanPuzzle img, s1) \<Rightarrow> resume c (AtScanPuzzle img) (Inr None) s1
          | (t, s1) \<Rightarrow> (t, s1))
         = (if b then (Returned, afterLoop c r' s') else waitNextFrame r' s')"
        by simp
      show ?thesis
      proof (cases "capture tk")
        case (Inl e)
        with hp r' show ?thesis
          by (auto simp: passEvents_def hostStep_Settle0 resume_def waitNextFrame_def
                   split: if_split_asm)
      next
        case (Inr x)
        show ?thesis
        proof (cases x)
          case None
          with Inr hp r' show ?thesis
            by (auto simp: passEvents_def hostStep_Settle0 resume_def waitNextFrame_def
                     split: if_split_asm)
        next
          case (Some img)
          have first: "resume c (AtCaptureWebcam None) (capture tk) ?s0 =
              (AtScanPuzzle img, invoke (CallScanPuzzle img) (mark ''captureWebcam'' ?s0))"
            using Inr Some by (simp add: resume_def)
          with hp have second: "resume c (AtScanPuzzle img) (Inr None)
              (invoke (CallScanPuzzle img) (mark ''captureWebcam'' ?s0))
              = (if b then (Returned, afterLoop c r' s') else waitNextFrame r' s')"
            by simp
          show ?thesis
            using Inr Some first second r'
            by (auto simp: passEvents_def hostStep_Settle0 waitNextFrame_def resume_def)
        qed
      qed
    qed
    show ?thesis
    proof (cases b)
      case True
      with pass \<open>webcamStarted s\<close> lb show ?thesis
        using hostRun_Returned [of c tks "afterLoop c r' s'"]
        by (simp add: loopHead_def hostRun_append del: hostRun_Cons)
    next
      case False
      have "\<forall>tk \<in> set tks. cancel tk = None" using Cons.prems by simp
      from Cons.IH [OF this, of "logInfo ''[onVideoClick] waiting for next frame...'' s'"]
      show ?thesis
        using pass False \<open>webcamStarted s\<close> lb nc loopBody_no_break [of c tk s]
        by (simp add: loopHead_def hostRun_append del: hostRun_Cons)
    qed
  qed
qed

lemma host_session:
  assumes "\<forall>tk \<in> set tks. cancel tk = None" and "\<not> webcamStarted s"
  shows "hostRun c (ClickVideo # Settle 0 (Inr None) # concat (map passEvents tks))
           \<lparr>shared = s, handlers = []\<rparr>
         = (case onVideoClick c tks s of
              Done u s' \<Rightarrow> \<lparr>shared = s', handlers = [Returned]\<rparr>
            | Pending s' \<Rightarrow> \<lparr>shared = invoke CallCaptureWebcam (clearMarks s'),
                              handlers = [AtCaptureWebcam None]\<rparr>)"
proof (cases "startWebcam c")
  case (Inl e)
  with assms(2) show ?thesis
    using hostRun_Returned [of c tks]
    by (simp add: hostStep_def resume_def onVideoClick_def)
next
  case (Inr u)
  let ?s1 = "enterLoop c (resetScanMetrics (hideErrorPanel s))"
  have "hostRun c (ClickVideo # Settle 0 (Inr None) # concat (map passEvents tks))
           \<lparr>shared = s, handlers = []\<rparr>
        = hostRun c (concat (map passEvents tks))
           \<lparr>shared = snd (loopHead c None ?s1), handlers = [fst (loopHead c None ?s1)]\<rparr>"
    using assms(2) Inr by (simp add: hostStep_def resume_def split_beta)
  with host_loop [OF assms(1), of c ?s1] assms(2) Inr show ?thesis
    by (simp add: onVideoClick_def split: run.splits)
qed

section \<open>The claims\<close>

subsection \<open>C1: an unexpected exception during a pass\<close>




subsection \<open>C2: the minimum-clue gate\<close>



subsection \<open>C3: the constraint gate\<close>



subsection \<open>C4: the uniqueness gate\<close>



subsection \<open>C5: the expected scan exception\<close>




subsection \<open>C6: the retained mark log\<close>

text \<open>
  Claim C6, as the code has it: the bound is on what is sent. Every request built by
  \<open>saveScanMetrics\<close> carries the last 100 entries of the session's log (all of them when
  there are fewer), and every request posted by a session, however many passes it runs
  and whether it completes, is cancelled or is still running, carries at most 100 mark
  sets.
\<close>

theorem posted_mark_log_bounded:
  "(\<exists>d. posted (saveScanMetrics c oc u sol s) = posted s @ [d]
        \<and> m_markss d = sliceLast 100 (markss s)
        \<and> length (m_markss d) = min 100 (length (markss s)))
   \<and> (postedBounded s \<longrightarrow>
        postedBounded (stateOf (onVideoClick c tks s)) \<and> postedBounded (onCancel c s))"
proof (intro conjI impI)
  show "\<exists>d. posted (saveScanMetrics c oc u sol s) = posted s @ [d]
        \<and> m_markss d = sliceLast 100 (markss s)
        \<and> length (m_markss d) = min 100 (length (markss s))"
    by (simp add: sliceLast_length)
next
  assume b: "postedBounded s"
  show "postedBounded (stateOf (onVideoClick c tks s))"
  proof (cases "webcamStarted s")
    case True
    with b show ?thesis by (simp add: onVideoClick_def postedBounded_def logInfo_def)
  next
    case False
    show ?thesis
    proof (cases "startWebcam c")
      case (Inl e)
      with False b show ?thesis by (simp add: onVideoClick_def Let_def postedBounded_def prim_defs)
    next
      case (Inr u)
      let ?s2 = "enterLoop c (resetScanMetrics (hideErrorPanel s))"
      have "postedBounded ?s2"
        using b by (simp add: postedBounded_def prim_defs)
      then have "postedBounded (stateOf (scanLoop c tks None ?s2))"
        by (rule postedBounded_scanLoop)
      then show ?thesis
        using False Inr
        by (auto simp: onVideoClick_def Let_def postedBounded_afterLoop split: run.splits)
    qed
  qed
next
  assume "postedBounded s"
  then show "postedBounded (onCancel c s)"
    by (simp add: postedBounded_def sliceLast_length)
qed

text \<open>
  A session of 101 passes: its log holds 101 mark sets, and the request sent when it is
  cancelled carries 100 of them.
\<close>

theorem posted_mark_log_bounded_witness:
  "length (markss (stateOf (scanLoop exCollab (replicate 101 (frameTick [])) None exLooping))) = 101
   \<and> (\<exists>d. posted (saveScanMetrics exCollab ''cancelled'' None None
              (stateOf (scanLoop exCollab (replicate 101 (frameTick [])) None exLooping))) = [d]
        \<and> length (m_markss d) = 100)
   \<and> postedBounded (onCancel exCollab
        (stateOf (scanLoop exCollab (replicate 101 (frameTick [])) None exLooping)))
   \<and> postedBounded (stateOf (onVideoClick exCollab (replicate 100 (frameTick []) @ [cancelTick]) exIdle))
   \<and> (\<exists>d. posted (stateOf (onVideoClick exCollab (replicate 100 (frameTick []) @ [cancelTick]) exIdle))
          = [d]
        \<and> m_outcome d = ''cancelled'' \<and> length (m_markss d) = 100)"
proof -
  let ?S = "stateOf (scanLoop exCollab (replicate 101 (frameTick [])) None exLooping)"
  have "webcamStarted exLooping" "markss exLooping = []" "posted exLooping = []"
    by (simp_all add: exLooping_def exIdle_def)
  with noPuzzle_loop_posted [of exLooping 101]
  have S: "length (markss ?S) = 101" "posted ?S = []"
    by auto
  then have bS: "postedBounded ?S"
    by (simp add: postedBounded_def)
  have bI: "postedBounded exIdle"
    by (simp add: postedBounded_def exIdle_def)
  from posted_mark_log_bounded [of exCollab "''cancelled''" None None ?S "[]"]
       posted_mark_log_bounded [of exCollab "''cancelled''" None None exIdle
          "replicate 100 (frameTick []) @ [cancelTick]"]
       S bS bI cancel_after_100_passes
  show ?thesis by (auto simp del: scanLoop.simps replicate.simps)
qed

text \<open>
  C6 as stated bounds the session's log of mark sets by 100 entries. \<open>logPerformanceMetrics\<close>
  pushes onto \<open>markss\<close> without a bound: after 101 passes over frames that show no
  puzzle the session's log holds 101 entries.
\<close>

theorem mark_log_counterexample:
  "length (markss (stateOf (onVideoClick exCollab (replicate 101 (frameTick [])) exIdle))) = 101"
proof -
  let ?s2 = "enterLoop exCollab (resetScanMetrics (hideErrorPanel exIdle))"
  have "webcamStarted ?s2" "markss ?s2 = []"
    by (simp_all add: prim_defs exCollab_def)
  with noPuzzle_loop [of ?s2 101] obtain s' where
    "scanLoop exCollab (replicate 101 (frameTick [])) None ?s2 = Pending s'"
    "length (markss s') = 101"
    by auto
  moreover have "\<not> webcamStarted exIdle" "startWebcam exCollab = Inr ()"
    by (simp_all add: exIdle_def exCollab_def)
  ultimately show ?thesis
    by (simp add: onVideoClick_def Let_def)
qed

subsection \<open>C7: starting while a session is active\<close>

text \<open>
  Claim C7: the guard of \<open>onVideoClick\<close> reads \<open>isWebcamStarted()\<close> before \<open>startWebcam\<close>
  is awaited, and the webcam is started only when that promise settles. A second click on
  the video button before the first start has settled therefore passes the guard: no
  notice is logged, both handlers enter the loop, and the two loops run their passes
  interleaved, each capturing and scanning its own frames. The claim's single running
  loop fails on this run.
\<close>

theorem second_click_before_start_settles:
  "handlers (hostRun exCollab [ClickVideo, ClickVideo, Settle 0 settled, Settle 1 settled] exHost)
     = [AtCaptureWebcam None, AtCaptureWebcam None]
   \<and> logged (shared (hostRun exCollab
        [ClickVideo, ClickVideo, Settle 0 settled, Settle 1 settled] exHost)) = []
   \<and> filter looping (handlers (hostRun exCollab
        [ClickVideo, ClickVideo, Settle 0 settled, Settle 1 settled,
         Settle 0 (Inr (Some [16])), Settle 1 (Inr (Some [16])),
         Settle 0 settled, Settle 1 settled] exHost))
     = [AtNextFrame None, AtNextFrame None]
   \<and> calls (shared (hostRun exCollab
        [ClickVideo, ClickVideo, Settle 0 settled, Settle 1 settled,
         Settle 0 (Inr (Some [16])), Settle 1 (Inr (Some [16])),
         Settle 0 settled, Settle 1 settled] exHost))
     = [CallCaptureWebcam, CallCaptureWebcam, CallScanPuzzle [16], CallScanPuzzle [16]]"
  by code_simp

text \<open>
  Once the webcam is started the guard does what the claim says: \<open>onVideoClick\<close>
  returns at once, whatever frames would follow, and changes nothing but the log, to which
  it adds one info entry.
\<close>

lemma start_while_active_is_noop:
  assumes "webcamStarted s"
  shows "onVideoClick c tks s =
           Done () (s\<lparr>logged := logged s @ [LogInfo ''[onVideoClick] webcam already started - bailing'']\<rparr>)"
  using assms by (simp add: onVideoClick_def logInfo_def)

subsection \<open>C8: cancelling while the loop runs\<close>

text \<open>
  Claim C8: \<open>onCancel\<close> runs as soon as the button is clicked and does not interrupt the
  pass in flight. When the click arrives while \<open>processImage\<close> awaits recognition and the
  frame is then solved, \<open>processImage\<close> switches the display to the solution view after
  \<open>onCancel\<close> has set the instructions view, and the guard \<open>result && isWebcamStarted()\<close>
  skips the clean-up of a completed scan. The session ends with the solution displayed
  and the outcome \<open>cancelled\<close> posted, where the claim leaves the instructions view; the
  handler on its own and the host agree on this run.
\<close>

theorem cancel_during_scan_shows_solution:
  "displayMode (stateOf (onVideoClick exCollab
      [\<lparr>capture = Inr (Some [30]), cancel = Some AwaitProcessImage\<rparr>] exIdle))
     = DISPLAY_MODE_SOLUTION
   \<and> map m_outcome (posted (stateOf (onVideoClick exCollab
      [\<lparr>capture = Inr (Some [30]), cancel = Some AwaitProcessImage\<rparr>] exIdle)))
     = [''cancelled'']
   \<and> displayMode (shared (hostRun exCollab
        [ClickVideo, Settle 0 settled, Settle 0 (Inr (Some [30])), ClickCancel, Settle 0 settled]
        exHost)) = DISPLAY_MODE_SOLUTION
   \<and> map m_outcome (posted (shared (hostRun exCollab
        [ClickVideo, Settle 0 settled, Settle 0 (Inr (Some [30])), ClickCancel, Settle 0 settled]
        exHost))) = [''cancelled'']
   \<and> handlers (hostRun exCollab
        [ClickVideo, Settle 0 settled, Settle 0 (Inr (Some [30])), ClickCancel, Settle 0 settled]
        exHost) = [Returned]"
  by code_simp

text \<open>
  A click on the video button after the cancel, while the first handler is still
  suspended, starts the webcam again: the guard after the loop then holds for the first
  handler, and \<open>completed\<close> is posted after \<open>cancelled\<close>.
\<close>

lemma restart_after_cancel:
  "map m_outcome (posted (shared (hostRun exCollab
      [ClickVideo, Settle 0 settled, Settle 0 (Inr (Some [30])), ClickCancel,
       ClickVideo, Settle 1 settled, Settle 0 settled] exHost)))
     = [''cancelled'', ''completed'']"
  by code_simp

text \<open>
  The other paths of a cancel click, for a handler on its own: at whatever \<open>await\<close> of
  the current pass the click arrives, the loop ends with that pass, the webcam is stopped,
  the cancel button is hidden and \<open>cancelled\<close> is posted; the display is left at the
  instructions view when the click arrives during the wait for the next frame, or when
  the pass in flight draws no solution.
\<close>

lemma cancel_while_looping:
  assumes started: "webcamStarted s" and button: "cancelButton s"
      and click: "cancel tk = Some p" and reached: "suspendsAt c tk s p"
  shows "\<exists>r' s'. (\<forall>tks. scanLoop c (tk # tks) None s = Done r' s')
           \<and> \<not> webcamStarted s' \<and> \<not> cancelButton s'
           \<and> map m_outcome (posted s') = map m_outcome (posted s) @ [''cancelled'']
           \<and> afterLoop c r' s' = logInfo tfMemoryLine s'
           \<and> (p = AwaitNextFrame \<or> drawCalls s' = drawCalls s \<longrightarrow>
                displayMode s' = DISPLAY_MODE_INSTRUCTIONS)"
proof -
  obtain b r' s1 where lb: "loopBody c tk None s = (b, r', s1)"
    by (cases "loopBody c tk None s") auto
  let ?wait = "logInfo ''[onVideoClick] waiting for next frame...'' s1"
  show ?thesis
  proof (cases "p = AwaitNextFrame")
    case True
    have nb: "\<not> b" using reached lb True by (simp add: suspendsAt_def)
    have s1: "webcamStarted s1" "cancelButton s1" "posted s1 = posted s" "r' = None"
      using loopBody_uncancelled [where tk = tk and c = c and r = None and s = s] click True lb nb started button by simp_all
    let ?s' = "onCancel c ?wait"
    have "cancelAt c AwaitNextFrame tk ?wait = ?s'"
      using click True s1 by (simp add: cancelAt_hit logInfo_def)
    then have "\<forall>tks. scanLoop c (tk # tks) None s = Done r' ?s'"
      using started lb nb by (simp add: scanLoop_stopped)
    moreover have "\<not> webcamStarted ?s'" "\<not> cancelButton ?s'"
        "map m_outcome (posted ?s') = map m_outcome (posted s) @ [''cancelled'']"
        "displayMode ?s' = DISPLAY_MODE_INSTRUCTIONS"
      using s1 by (simp_all add: logInfo_def)
    ultimately show ?thesis
      using afterLoop_stopped [of ?s' c r'] by blast
  next
    case False
    let ?s0 = "invoke CallCaptureWebcam (clearMarks s)"
    let ?s' = "if b then s1 else ?wait"
    have wait: "cancelAt c AwaitNextFrame tk ?wait = ?wait"
      using click False by (simp add: cancelAt_other)
    have fields: "\<not> webcamStarted s1 \<and> \<not> cancelButton s1
        \<and> map m_outcome (posted s1) = map m_outcome (posted s) @ [''cancelled'']
        \<and> (drawCalls s1 = drawCalls s \<longrightarrow> displayMode s1 = DISPLAY_MODE_INSTRUCTIONS)"
    proof (cases p)
      case AwaitCaptureWebcam
      have c1: "cancelAt c AwaitCaptureWebcam tk ?s0 = onCancel c ?s0"
        using click AwaitCaptureWebcam button by (simp add: cancelAt_hit prim_defs)
      have c2: "\<And>t. cancelAt c AwaitProcessImage tk t = t"
        using click AwaitCaptureWebcam by (simp add: cancelAt_other)
      show ?thesis
      proof (cases "capture tk")
        case (Inl e)
        with lb c1 show ?thesis
          by (auto simp: loopBody_def Let_def prim_defs drawCalls_def)
      next
        case (Inr x)
        show ?thesis
        proof (cases x)
          case None
          with Inr lb c1 show ?thesis
            by (auto simp: loopBody_def Let_def prim_defs drawCalls_def)
        next
          case (Some img)
          let ?t = "mark ''captureWebcam'' (onCancel c ?s0)"
          have s1: "s1 = logPerformanceMetrics (snd (processImage c (cancelAt c AwaitProcessImage tk) img ?t))"
            using lb Inr Some c1 by (simp add: loopBody_frame)
          have dm: "displayMode s1 =
              (if length (drawCalls s1) = length (drawCalls ?t)
               then DISPLAY_MODE_INSTRUCTIONS else DISPLAY_MODE_SOLUTION)"
            using processImage_try_display [of "cancelAt c AwaitProcessImage tk" c img ?t]
            by (simp add: s1 c2 drawCalls_def prim_defs)
          have "drawCalls ?t = drawCalls s"
            by (simp add: drawCalls_def prim_defs)
          with dm show ?thesis
            by (simp add: s1 c2 prim_defs)
        qed
      qed
    next
      case AwaitProcessImage
      then obtain img where img: "capture tk = Inr (Some img)"
        using reached by (auto simp: suspendsAt_def split: sum.splits option.splits)
      have c1: "\<And>t. cancelAt c AwaitCaptureWebcam tk t = t"
        using click AwaitProcessImage by (simp add: cancelAt_other)
      let ?t = "mark ''captureWebcam'' ?s0"
      have c2: "cancelAt c AwaitProcessImage tk (invoke (CallScanPuzzle img) ?t)
                  = onCancel c (invoke (CallScanPuzzle img) ?t)"
        using click AwaitProcessImage button by (simp add: cancelAt_hit prim_defs)
      have s1: "s1 = logPerformanceMetrics (snd (processImage c (cancelAt c AwaitProcessImage tk) img ?t))"
        using lb img c1 by (simp add: loopBody_frame)
      have dm: "displayMode s1 =
          (if length (drawCalls s1) = length (drawCalls ?t)
           then DISPLAY_MODE_INSTRUCTIONS else DISPLAY_MODE_SOLUTION)"
        using processImage_try_display [of "cancelAt c AwaitProcessImage tk" c img ?t]
        by (simp add: s1 c2 drawCalls_def)
      have "drawCalls ?t = drawCalls s"
        by (simp add: drawCalls_def prim_defs)
      with dm click AwaitProcessImage button show ?thesis
        by (simp add: s1 prim_defs)
    next
      case AwaitNextFrame
      with False show ?thesis by simp
    qed
    have "\<forall>tks. scanLoop c (tk # tks) None s = Done r' ?s'"
      using started lb wait fields by (simp add: scanLoop_stopped logInfo_def)
    moreover have "\<not> webcamStarted ?s'" "\<not> cancelButton ?s'"
        "map m_outcome (posted ?s') = map m_outcome (posted s) @ [''cancelled'']"
        "drawCalls ?s' = drawCalls s \<longrightarrow> displayMode ?s' = DISPLAY_MODE_INSTRUCTIONS"
      using fields by (simp_all add: logInfo_def drawCalls_def)
    ultimately show ?thesis
      using afterLoop_stopped [of ?s' c r'] False by blast
  qed
qed

subsection \<open>C9: a uniquely solved frame\<close>

text \<open>
  Claim C9, as the code has it: in a session started from idle whose webcam starts and
  whose loop is still running after the earlier passes, with one handler on its own, a
  pass with no cancel click whose frame yields at least 17 digit predictions that satisfy
  the constraints, whose puzzle the solver answers with exactly one solution, and whose
  puzzle conversion, drawing and snapshot do not raise, completes the session:
  \<open>onVideoClick\<close> returns with the solution view displayed and the solution drawn,
  outcome \<open>completed\<close> posted with the snapshot and the solution, the webcam stopped and
  the cancel button hidden.
\<close>

theorem unique_solution_succeeds:
  assumes idle: "\<not> webcamStarted s" and start: "startWebcam c = Inr ()"
      and running: "scanLoop c pre None (enterLoop c (resetScanMetrics (hideErrorPanel s))) = Pending s1"
      and nc: "cancel tk = None"
      and frame: "capture tk = Inr (Some img)" "scanPuzzle c img = Inr dps" "17 \<le> length dps"
        "satisfiesAllConstraints c dps = Inr True" "digitPredictionsToPuzzle c dps = Inr p"
        "getInitialValues c p = Inr iv" "solve c p 1 = Inr [sol]"
        "drawPuzzle c iv sol = Inr ()" "imageDataToDataURL c img = Inr url"
  shows "\<exists>s'. onVideoClick c (pre @ tk # tks) s = Done () s'
           \<and> displayMode s' = DISPLAY_MODE_SOLUTION
           \<and> calls s' = calls s1 @ [CallCaptureWebcam, CallScanPuzzle img,
                 CallSatisfiesAllConstraints dps, CallSolve p 1, CallDrawPuzzle iv sol]
           \<and> posted s' = posted s1 @
                 [\<lparr>m_outcome = ''completed'', m_frameCount = frameCount s1 + 1,
                   m_markss = sliceLast 100 (markss s1 @
                     [[''captureWebcam'', ''scanPuzzle'', ''satisfiesAllConstraints'',
                       ''solve'', ''drawPuzzle'']]),
                   m_imageDataURL = Some url, m_solution = Some sol\<rparr>]
           \<and> \<not> webcamStarted s' \<and> \<not> cancelButton s'"
proof -
  let ?res = "\<lparr>imageDataURL = url, solution = sol\<rparr>"
  have started: "webcamStarted s1"
    using running by (rule scanLoop_Pending)
  have pass: "\<exists>s2. scanLoop c (tk # tks) None s1 = Done (Some ?res) s2
      \<and> displayMode s2 = DISPLAY_MODE_SOLUTION
      \<and> calls s2 = calls s1 @ [CallCaptureWebcam, CallScanPuzzle img,
            CallSatisfiesAllConstraints dps, CallSolve p 1, CallDrawPuzzle iv sol]
      \<and> posted s2 = posted s1 \<and> webcamStarted s2
      \<and> frameCount s2 = frameCount s1 + 1
      \<and> markss s2 = markss s1 @ [[''captureWebcam'', ''scanPuzzle'',
            ''satisfiesAllConstraints'', ''solve'', ''drawPuzzle'']]"
    using started nc frame by (simp add: pass_defs prim_defs)
  then obtain s2 where s2: "scanLoop c (tk # tks) None s1 = Done (Some ?res) s2"
      "displayMode s2 = DISPLAY_MODE_SOLUTION"
      "calls s2 = calls s1 @ [CallCaptureWebcam, CallScanPuzzle img,
            CallSatisfiesAllConstraints dps, CallSolve p 1, CallDrawPuzzle iv sol]"
      "posted s2 = posted s1" "webcamStarted s2" "frameCount s2 = frameCount s1 + 1"
      "markss s2 = markss s1 @ [[''captureWebcam'', ''scanPuzzle'',
            ''satisfiesAllConstraints'', ''solve'', ''drawPuzzle'']]"
    by blast
  have "onVideoClick c (pre @ tk # tks) s = Done () (afterLoop c (Some ?res) s2)"
    using idle start running s2(1)
      scanLoop_append [of c pre "tk # tks" "enterLoop c (resetScanMetrics (hideErrorPanel s))"]
    by (simp add: onVideoClick_def del: scanLoop.simps)
  moreover have "displayMode (afterLoop c (Some ?res) s2) = DISPLAY_MODE_SOLUTION"
      "calls (afterLoop c (Some ?res) s2) = calls s2"
      "posted (afterLoop c (Some ?res) s2) = posted s2 @
         [\<lparr>m_outcome = ''completed'', m_frameCount = frameCount s2,
           m_markss = sliceLast 100 (markss s2),
           m_imageDataURL = Some url, m_solution = Some sol\<rparr>]"
      "\<not> webcamStarted (afterLoop c (Some ?res) s2)"
      "\<not> cancelButton (afterLoop c (Some ?res) s2)"
    using s2 by (simp_all add: afterLoop_def prim_defs)
  ultimately show ?thesis
    using s2 by simp
qed

theorem unique_solution_succeeds_witness:
  "length exClues = 30 \<and> uniqueInUnits exClues
   \<and> (\<exists>s'. onVideoClick exCollab [frameTick [16], frameTick [30]] exIdle = Done () s'
        \<and> displayMode s' = DISPLAY_MODE_SOLUTION
        \<and> drawCalls s' = [CallDrawPuzzle (exPuzzle exClues) exSolution]
        \<and> posted s' =
              [\<lparr>m_outcome = ''completed'', m_frameCount = 2,
                m_markss = [[''captureWebcam'', ''scanPuzzle''],
                            [''captureWebcam'', ''scanPuzzle'', ''satisfiesAllConstraints'',
                             ''solve'', ''drawPuzzle'']],
                m_imageDataURL = Some ''data:image/png'', m_solution = Some exSolution\<rparr>]
        \<and> \<not> webcamStarted s' \<and> \<not> cancelButton s')"
proof -
  have clues: "length exClues = 30" "uniqueInUnits exClues"
    by (simp_all add: exClues_def uniqueInUnits_def noRepeat_def rowOf_def colOf_def boxOf_def)
  have env: "scanPuzzle exCollab [30] = Inr exClues" "17 \<le> length exClues"
      "satisfiesAllConstraints exCollab exClues = Inr True"
      "digitPredictionsToPuzzle exCollab exClues = Inr (exPuzzle exClues)"
      "getInitialValues exCollab (exPuzzle exClues) = Inr (exPuzzle exClues)"
      "solve exCollab (exPuzzle exClues) 1 = Inr [exSolution]"
      "drawPuzzle exCollab (exPuzzle exClues) exSolution = Inr ()"
      "imageDataToDataURL exCollab [30] = Inr ''data:image/png''"
    using clues by (simp_all add: exCollab_def exScanPuzzle_def exSolve_def)
  have idle: "\<not> webcamStarted exIdle" "startWebcam exCollab = Inr ()"
      "cancel (frameTick [30]) = None" "capture (frameTick [30]) = Inr (Some [30])"
    by (simp_all add: exIdle_def exCollab_def frameTick_def)
  have "\<exists>s1. scanLoop exCollab [frameTick [16]] None
            (enterLoop exCollab (resetScanMetrics (hideErrorPanel exIdle))) = Pending s1
      \<and> calls s1 = [CallCaptureWebcam, CallScanPuzzle [16]] \<and> posted s1 = []
      \<and> frameCount s1 = 1 \<and> markss s1 = [[''captureWebcam'', ''scanPuzzle'']]"
    by (simp add: pass_defs prim_defs exCollab_def exScanPuzzle_def exClues_def exIdle_def
          frameTick_def)
  then obtain s1 where s1: "scanLoop exCollab [frameTick [16]] None
            (enterLoop exCollab (resetScanMetrics (hideErrorPanel exIdle))) = Pending s1"
      "calls s1 = [CallCaptureWebcam, CallScanPuzzle [16]]" "posted s1 = []"
      "frameCount s1 = 1" "markss s1 = [[''captureWebcam'', ''scanPuzzle'']]"
    by blast
  from unique_solution_succeeds [OF idle(1) idle(2) s1(1) idle(3) idle(4) env, of "[]"] clues s1
  show ?thesis by (auto simp: sliceLast_def drawCalls_def)
qed

text \<open>
  C9 as stated asks nothing of the rest of the pass. With a frame of 30 valid clues that
  the solver answers with exactly one solution, a cancel click while the capture is
  awaited ends the session with outcome \<open>cancelled\<close> and no \<open>completed\<close>; and with a
  display that fails to draw, the session is left without any outcome and the error is
  shown in the panel.
\<close>

theorem unique_solution_counterexample:
  "length exClues = 30 \<and> uniqueInUnits exClues
   \<and> solve exCollab (exPuzzle exClues) 1 = Inr [exSolution]
   \<and> map m_outcome (posted (stateOf (onVideoClick exCollab
        [\<lparr>capture = Inr (Some [30]), cancel = Some AwaitCaptureWebcam\<rparr>] exIdle)))
       = [''cancelled'']
   \<and> solve exCollabNoDraw (exPuzzle exClues) 1 = Inr [exSolution]
   \<and> posted (stateOf (onVideoClick exCollabNoDraw [frameTick [30]] exIdle)) = []
   \<and> errorPanel (stateOf (onVideoClick exCollabNoDraw [frameTick [30]] exIdle)) = Some ''boom''"
  by code_simp

subsection \<open>C10: timing marks and the frame counter\<close>




end
